theory Spec2Isabelle
  imports Complex_Main
begin

section \<open>JavaScript strings\<close>

text \<open>
  A JavaScript string is a sequence of code units.  The model uses \<^typ>\<open>string\<close>, whose
  characters are the code units U+0000 to U+00FF; every literal of the sources lies in that
  range.  The string methods the sources call are written out below with the behaviour
  they have on such strings.
\<close>

definition code :: "char \<Rightarrow> nat" where
  "code c = of_char c"

definition is_upper :: "char \<Rightarrow> bool" where
  \<comment> \<open>the character class \<open>[A-Z]\<close>\<close>
  "is_upper c = (65 \<le> code c \<and> code c \<le> 90)"

definition is_lower :: "char \<Rightarrow> bool" where
  \<comment> \<open>the character class \<open>[a-z]\<close>\<close>
  "is_lower c = (97 \<le> code c \<and> code c \<le> 122)"

definition is_digit :: "char \<Rightarrow> bool" where
  \<comment> \<open>the character class \<open>[0-9]\<close>\<close>
  "is_digit c = (48 \<le> code c \<and> code c \<le> 57)"

definition is_letter :: "char \<Rightarrow> bool" where
  \<comment> \<open>\<open>[a-z]\<close> under the flag \<open>i\<close>: in a regular expression without the flag \<open>u\<close> a
      character outside ASCII never folds onto an ASCII letter\<close>
  "is_letter c = (is_upper c \<or> is_lower c)"

definition is_alnum :: "char \<Rightarrow> bool" where
  "is_alnum c = (is_letter c \<or> is_digit c)"

definition toLowerCase_char :: "char \<Rightarrow> char" where
  \<comment> \<open>\<open>String.prototype.toLowerCase\<close> on one code unit below U+0100: the ASCII capitals and
      the Latin-1 capitals U+00C0 to U+00DE, U+00D7 (the multiplication sign) excepted\<close>
  "toLowerCase_char c =
     (if is_upper c \<or> (192 \<le> code c \<and> code c \<le> 222 \<and> code c \<noteq> 215)
      then char_of (code c + 32) else c)"

definition toLowerCase :: "string \<Rightarrow> string" where
  "toLowerCase s = map toLowerCase_char s"

definition toUpperCase_letter :: "char \<Rightarrow> char" where
  \<comment> \<open>\<open>toUpperCase\<close> of a one-character string; the sources call it on ASCII letters only\<close>
  "toUpperCase_letter c = (if is_lower c then char_of (code c - 32) else c)"

definition startsWith :: "string \<Rightarrow> string \<Rightarrow> bool" where
  \<comment> \<open>\<open>s.startsWith(p)\<close>\<close>
  "startsWith s p = (take (length p) s = p)"

fun includes_str :: "string \<Rightarrow> string \<Rightarrow> bool" where
  \<comment> \<open>\<open>s.includes(p)\<close>\<close>
  "includes_str [] p = (p = [])"
| "includes_str (c # cs) p = (startsWith (c # cs) p \<or> includes_str cs p)"

text \<open>
  \<open>s.split(sep)\<close> for a non-empty separator string: the pieces between the successive
  leftmost occurrences of \<open>sep\<close>.  The result is never empty.
\<close>

function split :: "string \<Rightarrow> string \<Rightarrow> string list" where
  "split [] sep = [[]]"
| "split (c # cs) sep =
     (if sep \<noteq> [] \<and> startsWith (c # cs) sep
      then [] # split (drop (length sep) (c # cs)) sep
      else (case split cs sep of
              [] \<Rightarrow> [[c]]
            | p # ps \<Rightarrow> (c # p) # ps))"
  by pat_completeness auto
termination
  by (relation "measure (\<lambda>(s, sep). length s)") auto

fun join :: "string list \<Rightarrow> string \<Rightarrow> string" where
  \<comment> \<open>\<open>parts.join(sep)\<close>\<close>
  "join [] sep = []"
| "join [p] sep = p"
| "join (p # q # ps) sep = p @ sep @ join (q # ps) sep"

text \<open>
  \<open>s.replace(/pat/g, rep)\<close> for a pattern that is a literal, non-empty string: every
  occurrence found scanning from the left, without overlap, is replaced.
\<close>

function replace_all :: "string \<Rightarrow> string \<Rightarrow> string \<Rightarrow> string" where
  "replace_all [] pat rep = []"
| "replace_all (c # cs) pat rep =
     (if pat \<noteq> [] \<and> startsWith (c # cs) pat
      then rep @ replace_all (drop (length pat) (c # cs)) pat rep
      else c # replace_all cs pat rep)"
  by pat_completeness auto
termination
  by (relation "measure (\<lambda>(s, pat, rep). length s)") auto

definition replace_chars :: "string \<Rightarrow> (char \<Rightarrow> bool) \<Rightarrow> (char \<Rightarrow> string) \<Rightarrow> string" where
  \<comment> \<open>\<open>s.replace(/[class]/g, f)\<close> for a pattern that matches one character\<close>
  "replace_chars s P f = concat (map (\<lambda>c. if P c then f c else [c]) s)"

section \<open>Name codec (utils/properties.js)\<close>

definition DOT_MARKER :: string where
  "DOT_MARKER = ''__DOT_MARKER__''"

text \<open>\<open>part.replace(/-([a-z])/gi, (g) => g[1].toUpperCase())\<close>\<close>

fun kebab_to_camel :: "string \<Rightarrow> string" where
  "kebab_to_camel (c # d # cs) =
     (if c = CHR ''-'' \<and> is_letter d then toUpperCase_letter d # kebab_to_camel cs
      else c # kebab_to_camel (d # cs))"
| "kebab_to_camel cs = cs"

definition convert_piece :: "string \<Rightarrow> string" where
  \<comment> \<open>the two branches on \<open>length == 1\<close>, the same for a sub-part and for a whole segment\<close>
  "convert_piece s = (if length s = 1 then s else kebab_to_camel s)"

definition convert_segment :: "string \<Rightarrow> string" where
  \<comment> \<open>the body of the loop over \<open>parts\<close>\<close>
  "convert_segment part =
     (if includes_str part ''--''
      then join (map convert_piece (split part ''--'')) ''-''
      else convert_piece part)"

definition attributeNameToPropertyName :: "string \<Rightarrow> string \<Rightarrow> string" where
  "attributeNameToPropertyName attrName prefix =
     (if \<not> startsWith attrName prefix then attrName
      else
        let result = drop (length prefix) attrName;
            result = replace_all result ''..'' DOT_MARKER;
            parts = split result ''.'';
            parts = map convert_segment parts;
            result = join parts ''.''
        in replace_all result DOT_MARKER ''..'')"

datatype prop_input = PropString string | PropArray "string list"

definition encode_prop :: "string \<Rightarrow> string" where
  \<comment> \<open>the body of the loop over \<open>propPath\<close>\<close>
  "encode_prop prop =
     (let prop = replace_chars prop (\<lambda>c. c = CHR ''-'') (\<lambda>c. ''--'');
          prop = replace_chars prop (\<lambda>c. c = CHR ''.'') (\<lambda>c. ''..'');
          prop = replace_chars prop is_upper (\<lambda>c. [CHR ''-'', c])
      in toLowerCase prop)"

definition propertyNameToAttributeName :: "prop_input \<Rightarrow> string \<Rightarrow> string" where
  "propertyNameToAttributeName input prefix =
     (let propPath = (case input of PropArray ps \<Rightarrow> ps | PropString s \<Rightarrow> split s ''.'')
      in prefix @ join (map encode_prop propPath) ''.'')"

definition default_prefix :: string where
  "default_prefix = ''data-''"

definition endsWith :: "string \<Rightarrow> string \<Rightarrow> bool" where
  \<comment> \<open>\<open>s.endsWith(p)\<close>\<close>
  "endsWith s p = (length p \<le> length s \<and> drop (length s - length p) s = p)"

definition slice :: "string \<Rightarrow> int \<Rightarrow> int \<Rightarrow> string" where
  \<comment> \<open>\<open>s.slice(start, end)\<close>: a negative index counts from the end, both are clamped\<close>
  "slice s start end' =
     (let len = int (length s);
          from = (if start < 0 then max (len + start) 0 else min start len);
          to = (if end' < 0 then max (len + end') 0 else min end' len)
      in take (nat (to - from)) (drop (nat from) s))"

definition slice_from :: "string \<Rightarrow> int \<Rightarrow> string" where
  \<comment> \<open>\<open>s.slice(start)\<close>\<close>
  "slice_from s start = slice s start (int (length s))"

fun indexOf :: "string \<Rightarrow> char \<Rightarrow> int" where
  \<comment> \<open>\<open>s.indexOf(c)\<close> for a one-character string \<open>c\<close>; \<open>-1\<close> when absent\<close>
  "indexOf [] c = - 1"
| "indexOf (x # xs) c =
     (if x = c then 0 else (let i = indexOf xs c in if i = - 1 then - 1 else i + 1))"

definition lastIndexOf :: "string \<Rightarrow> char \<Rightarrow> int" where
  \<comment> \<open>\<open>s.lastIndexOf(c)\<close> for a one-character string \<open>c\<close>\<close>
  "lastIndexOf s c =
     (let i = indexOf (rev s) c in if i = - 1 then - 1 else int (length s) - 1 - i)"

definition is_space :: "char \<Rightarrow> bool" where
  \<comment> \<open>white space and line terminators below U+0100: TAB, LF, VT, FF, CR, SP, NBSP\<close>
  "is_space c = (code c \<in> {9, 10, 11, 12, 13, 32, 160})"

definition trim :: "string \<Rightarrow> string" where
  \<comment> \<open>\<open>s.trim()\<close>\<close>
  "trim s = rev (dropWhile is_space (rev (dropWhile is_space s)))"

section \<open>JavaScript numbers read from strings\<close>

text \<open>
  \<open>Number(s)\<close> on a string follows the grammar \<open>StringNumericLiteral\<close> of ECMAScript:
  optional white space around a signed decimal literal (with optional fraction and
  exponent), \<open>Infinity\<close>, or an unsigned binary, octal or hexadecimal integer; the empty
  string is \<open>0\<close> and everything else is \<open>NaN\<close>.  The model keeps the exact value the
  literal denotes, as a rational number; the rounding to a double is not modelled, and
  no statement below depends on it.
\<close>

datatype jsnum = Fin rat | NegZero | PosInf | NegInf | NaN

definition digit_val :: "char \<Rightarrow> nat" where
  "digit_val c =
     (if is_digit c then code c - 48
      else if is_lower c then code c - 87
      else code c - 55)"

definition is_hex_digit :: "char \<Rightarrow> bool" where
  "is_hex_digit c =
     (is_digit c \<or> (97 \<le> code c \<and> code c \<le> 102) \<or> (65 \<le> code c \<and> code c \<le> 70))"

definition is_octal_digit :: "char \<Rightarrow> bool" where
  "is_octal_digit c = (48 \<le> code c \<and> code c \<le> 55)"

definition is_binary_digit :: "char \<Rightarrow> bool" where
  "is_binary_digit c = (c = CHR ''0'' \<or> c = CHR ''1'')"

definition digits_value :: "nat \<Rightarrow> string \<Rightarrow> nat" where
  "digits_value base ds = foldl (\<lambda>acc c. acc * base + digit_val c) 0 ds"

definition parse_exponent :: "string \<Rightarrow> int option" where
  \<comment> \<open>\<open>ExponentPart\<close>, optional: \<open>e\<close> or \<open>E\<close>, an optional sign, at least one digit\<close>
  "parse_exponent r =
     (if r = [] then Some 0
      else if hd r = CHR ''e'' \<or> hd r = CHR ''E'' then
        (let t = tl r;
             neg = (t \<noteq> [] \<and> hd t = CHR ''-'');
             ds = (if t \<noteq> [] \<and> (hd t = CHR ''-'' \<or> hd t = CHR ''+'') then tl t else t)
         in if ds \<noteq> [] \<and> list_all is_digit ds
            then Some (if neg then - int (digits_value 10 ds) else int (digits_value 10 ds))
            else None)
      else None)"

definition scale10 :: "nat \<Rightarrow> int \<Rightarrow> rat" where
  \<comment> \<open>\<open>m\<close> times ten to the power \<open>k\<close>\<close>
  "scale10 m k = (if 0 \<le> k then of_nat m * 10 ^ nat k else of_nat m / 10 ^ nat (- k))"

definition parse_unsigned_decimal :: "string \<Rightarrow> rat option" where
  \<comment> \<open>\<open>StrUnsignedDecimalLiteral\<close> without \<open>Infinity\<close>: digits, a fraction, an exponent;
      at least one digit before or after the point\<close>
  "parse_unsigned_decimal s =
     (let ip = takeWhile is_digit s;
          r1 = dropWhile is_digit s;
          dot = (r1 \<noteq> [] \<and> hd r1 = CHR ''.'');
          fp = (if dot then takeWhile is_digit (tl r1) else []);
          r2 = (if dot then dropWhile is_digit (tl r1) else r1)
      in if ip = [] \<and> fp = [] then None
         else (case parse_exponent r2 of
                 None \<Rightarrow> None
               | Some e \<Rightarrow> Some (scale10 (digits_value 10 (ip @ fp)) (e - int (length fp)))))"

definition parse_radix :: "string \<Rightarrow> nat option" where
  \<comment> \<open>\<open>NonDecimalIntegerLiteral\<close>: \<open>0x\<close>, \<open>0o\<close>, \<open>0b\<close> (either case) and at least one digit\<close>
  "parse_radix t =
     (let p = take 2 t; ds = drop 2 t
      in if (p = ''0x'' \<or> p = ''0X'') \<and> ds \<noteq> [] \<and> list_all is_hex_digit ds
           then Some (digits_value 16 ds)
         else if (p = ''0o'' \<or> p = ''0O'') \<and> ds \<noteq> [] \<and> list_all is_octal_digit ds
           then Some (digits_value 8 ds)
         else if (p = ''0b'' \<or> p = ''0B'') \<and> ds \<noteq> [] \<and> list_all is_binary_digit ds
           then Some (digits_value 2 ds)
         else None)"

definition Number :: "string \<Rightarrow> jsnum" where
  "Number s =
     (let t = trim s
      in if t = [] then Fin 0
         else (case parse_radix t of
                 Some n \<Rightarrow> Fin (of_nat n)
               | None \<Rightarrow>
                   (let neg = (hd t = CHR ''-'');
                        u = (if hd t = CHR ''-'' \<or> hd t = CHR ''+'' then tl t else t)
                    in if u = ''Infinity'' then (if neg then NegInf else PosInf)
                       else (case parse_unsigned_decimal u of
                               None \<Rightarrow> NaN
                             | Some v \<Rightarrow>
                                 if neg then (if v = 0 then NegZero else Fin (- v))
                                 else Fin v))))"

definition isNaN :: "jsnum \<Rightarrow> bool" where
  "isNaN x = (x = NaN)"

section \<open>Modifier grammar (models/directive-parser/utils.js)\<close>

datatype arg = ANum jsnum | ABool bool | AStr string

definition is_name_char :: "char \<Rightarrow> bool" where
  \<comment> \<open>the character class \<open>[A-Za-z0-9_-]\<close>\<close>
  "is_name_char c = (is_alnum c \<or> c = CHR ''_'' \<or> c = CHR ''-'')"

text \<open>
  \<open>token.match(/^([A-Za-z0-9_-]+)(?:\(([^)]*)\))?/)\<close>.  The pattern is anchored at the
  start only.  The first group takes the longest run of name characters; the optional
  group matches when the next character is \<open>(\<close> and a \<open>)\<close> follows somewhere, and then
  the second group is the text between them.  The result is \<open>None\<close> for no match, else
  the first group and the second group (\<open>None\<close> when it did not take part).
\<close>

definition match_modifier :: "string \<Rightarrow> (string \<times> string option) option" where
  "match_modifier token =
     (let name = takeWhile is_name_char token;
          rest = dropWhile is_name_char token
      in if name = [] then None
         else if rest \<noteq> [] \<and> hd rest = CHR ''('' \<and> CHR '')'' \<in> set (tl rest)
           then Some (name, Some (takeWhile (\<lambda>c. c \<noteq> CHR '')'') (tl rest)))
         else Some (name, None))"

definition coerce_arg :: "string \<Rightarrow> arg" where
  \<comment> \<open>the function mapped over \<open>match[2].split(',')\<close>\<close>
  "coerce_arg a =
     (let arg = trim a
      in if \<not> isNaN (Number arg) \<and> arg \<noteq> [] then ANum (Number arg)
         else if toLowerCase arg = ''true'' then ABool True
         else if toLowerCase arg = ''false'' then ABool False
         else if (startsWith arg [CHR 0x27] \<and> endsWith arg [CHR 0x27]) \<or>
                 (startsWith arg [CHR 0x22] \<and> endsWith arg [CHR 0x22])
           then AStr (slice arg 1 (- 1))
         else AStr arg)"

definition modifier_args :: "string option \<Rightarrow> arg list" where
  \<comment> \<open>\<open>match[2] ? match[2].split(',').map(...) : []\<close>; the empty string is falsy\<close>
  "modifier_args g =
     (case g of
        None \<Rightarrow> []
      | Some a \<Rightarrow> if a = [] then [] else map coerce_arg (split a '',''))"

fun parse_tokens :: "string list \<Rightarrow> (string \<times> arg list) list" where
  \<comment> \<open>the loop over \<open>tokens\<close>, pushing onto \<open>modifiers\<close>\<close>
  "parse_tokens [] = []"
| "parse_tokens (token # tokens) =
     (case match_modifier token of
        None \<Rightarrow> parse_tokens tokens
      | Some (name, g) \<Rightarrow> (name, modifier_args g) # parse_tokens tokens)"

definition parseModifiersString :: "string \<Rightarrow> (string \<times> arg list) list" where
  "parseModifiersString str =
     (let tokens = filter (\<lambda>token. length token > 0) (split str ''#'')
      in parse_tokens tokens)"

section \<open>Directive values (models/directive-value.js)\<close>

text \<open>
  A JavaScript \<open>Map\<close> keeps its keys in insertion order; \<open>set\<close> on a key that is present
  replaces the value in place, and on a new key appends the entry.
\<close>

fun map_set :: "('k \<times> 'v) list \<Rightarrow> 'k \<Rightarrow> 'v \<Rightarrow> ('k \<times> 'v) list" where
  "map_set [] k v = [(k, v)]"
| "map_set ((k', v') # m) k v = (if k' = k then (k, v) # m else (k', v') # map_set m k v)"

definition map_get :: "('k \<times> 'v) list \<Rightarrow> 'k \<Rightarrow> 'v option" where
  "map_get m k = map_of m k"

definition map_has :: "('k \<times> 'v) list \<Rightarrow> 'k \<Rightarrow> bool" where
  "map_has m k = (k \<in> fst ` set m)"

record DirectiveValue =
  target :: string
  domProperty :: string
  event :: string
  eventModifiers :: "(string \<times> arg list) list"

definition new_DirectiveValue :: DirectiveValue where
  "new_DirectiveValue = \<lparr>target = [], domProperty = [], event = [], eventModifiers = []\<rparr>"

definition set_modifiers :: "DirectiveValue \<Rightarrow> (string \<times> arg list) list \<Rightarrow> DirectiveValue" where
  \<comment> \<open>\<open>for (let [name, args] of modifiers) directiveValue.eventModifiers.set(name, args)\<close>\<close>
  "set_modifiers dv modifiers =
     foldl (\<lambda>d (name, args). d\<lparr>eventModifiers := map_set (eventModifiers d) name args\<rparr>)
       dv modifiers"

section \<open>Model directive (parsers/model-directive.js)\<close>

definition parseModelDirective :: "string \<Rightarrow> DirectiveValue" where
  "parseModelDirective value =
     (let directiveValue = new_DirectiveValue;
          rest = value;
          atIndex = lastIndexOf rest CHR ''@'';
          directiveValue =
            (if atIndex \<noteq> - 1 then directiveValue\<lparr>event := slice_from rest (atIndex + 1)\<rparr>
             else directiveValue);
          rest = (if atIndex \<noteq> - 1 then slice rest 0 atIndex else rest);
          hashIndex = indexOf rest CHR ''#'';
          modifiersStr = (if hashIndex \<noteq> - 1 then slice_from rest (hashIndex + 1) else []);
          rest = (if hashIndex \<noteq> - 1 then slice rest 0 hashIndex else rest);
          colonIndex = indexOf rest CHR '':'';
          directiveValue =
            (if colonIndex \<noteq> - 1
             then directiveValue\<lparr>target := slice rest 0 colonIndex,
                                 domProperty := slice_from rest (colonIndex + 1)\<rparr>
             else directiveValue\<lparr>target := rest\<rparr>)
      in if modifiersStr \<noteq> []
         then set_modifiers directiveValue (parseModifiersString modifiersStr)
         else directiveValue)"

section \<open>Simple directive values (models/directive-parser/utils.js)\<close>

text \<open>
  \<open>console.warn\<close> is the only diagnostic channel.  A function that may warn returns its
  result together with the list of messages it logged, in order.
\<close>

definition is_target_char :: "char \<Rightarrow> bool" where
  \<comment> \<open>the character class \<open>[A-Za-z0-9_.$\-]\<close>\<close>
  "is_target_char c =
     (is_alnum c \<or> c = CHR ''_'' \<or> c = CHR ''.'' \<or> c = CHR ''$'' \<or> c = CHR ''-'')"

definition dquote :: string where
  "dquote = [CHR 0x22]"

text \<open>
  \<open>rest.match(/^([A-Za-z0-9_.$\-]+[A-Za-z0-9_$\-]*)/)\<close>: the first class contains the
  second, so the group is the longest leading run of characters of the first class, and
  there is no match when that run is empty.
\<close>

definition parseDirectiveValue :: "string \<Rightarrow> DirectiveValue \<times> string list" where
  "parseDirectiveValue value =
     (let directiveValue = new_DirectiveValue;
          rest = trim value;
          m = takeWhile is_target_char rest;
          directiveValue = directiveValue\<lparr>target := m\<rparr>;
          rest = (if m \<noteq> [] then slice_from rest (int (length m)) else rest);
          directiveValue =
            (if startsWith rest ''#''
             then set_modifiers directiveValue (parseModifiersString (slice_from rest 1))
             else directiveValue);
          w1 = (if \<not> startsWith rest ''#'' \<and> length rest > 0 \<and> target directiveValue \<noteq> []
                then [''Unexpected characters in directive value after target: ''
                        @ dquote @ rest @ dquote]
                else []);
          w2 = (if target directiveValue = []
                then [''Could not parse target from directive value: ''
                        @ dquote @ value @ dquote]
                else [])
      in (directiveValue, w1 @ w2))"

definition parseAttributeDirective :: "string \<Rightarrow> DirectiveValue \<times> string list" where
  "parseAttributeDirective value = parseDirectiveValue value"

definition parsePropertyDirective :: "string \<Rightarrow> DirectiveValue \<times> string list" where
  "parsePropertyDirective value = parseDirectiveValue value"

definition parseBehaviorDirective :: "string \<Rightarrow> DirectiveValue \<times> string list" where
  "parseBehaviorDirective value = parseDirectiveValue value"

section \<open>Elements (utils/dom.js, utils/validators.js)\<close>

text \<open>
  Of a DOM element the sources read the tag name, the properties \<open>type\<close> and
  \<open>contentEditable\<close> (\<open>None\<close> when the property is undefined) and the attributes, a
  sequence of name and value pairs.
\<close>

record Element =
  tagName :: string
  element_type :: "string option"
  contentEditable :: "string option"
  attributes :: "(string \<times> string) list"

definition getAttribute :: "Element \<Rightarrow> string \<Rightarrow> string option" where
  \<comment> \<open>\<open>element.getAttribute(name)\<close>: the value of the first attribute of that name\<close>
  "getAttribute element name = map_of (attributes element) name"

definition getElementAttrs :: "Element \<Rightarrow> (string \<times> string) list" where
  "getElementAttrs element =
     foldl (\<lambda>attrs (name, value). map_set attrs name value) [] (attributes element)"

datatype native = NativeName string | NativeObject string | NotNative

definition nativeProps :: "string \<Rightarrow> native option" where
  \<comment> \<open>\<open>nativeProps[result]\<close>: the seven entries of the table; the object literal also
      inherits \<open>constructor\<close> and \<open>__proto__\<close> from \<open>Object.prototype\<close>, whose values are
      objects, not strings\<close>
  "nativeProps result =
     (if result = ''contenteditable'' then Some (NativeName ''contentEditable'')
      else if result = ''innerhtml'' then Some (NativeName ''innerHTML'')
      else if result = ''innertext'' then Some (NativeName ''innerText'')
      else if result = ''outerhtml'' then Some (NativeName ''outerHTML'')
      else if result = ''outertext'' then Some (NativeName ''outerText'')
      else if result = ''classname'' then Some (NativeName ''className'')
      else if result = ''textcontent'' then Some (NativeName ''textContent'')
      else if result = ''constructor'' \<or> result = ''__proto__'' then Some (NativeObject result)
      else None)"

text \<open>
  \<open>result in window.Element.prototype\<close> depends on the host; it is the parameter
  \<open>in_prototype\<close>.
\<close>

definition isNativePropertyName :: "(string \<Rightarrow> bool) \<Rightarrow> string \<Rightarrow> string \<Rightarrow> native" where
  "isNativePropertyName in_prototype name prefix =
     (let result = (if startsWith name prefix then drop (length prefix) name else name);
          result = toLowerCase result
      in case nativeProps result of
           Some v \<Rightarrow> v
         | None \<Rightarrow> if in_prototype result then NativeName result else NotNative)"

definition truthy_native :: "native \<Rightarrow> bool" where
  \<comment> \<open>\<open>if (nativeProp)\<close>: \<open>false\<close> and the empty string are falsy\<close>
  "truthy_native n = (case n of NativeName r \<Rightarrow> r \<noteq> [] | NativeObject r \<Rightarrow> True | NotNative \<Rightarrow> False)"

definition supportedTypes :: "string list" where
  "supportedTypes =
     [''text'', ''password'', ''email'', ''search'', ''tel'', ''url'', ''number'', ''range'',
      ''date'', ''time'', ''month'', ''week'', ''datetime-local'', ''color'', ''checkbox'',
      ''radio'']"

definition isValidForTwoWayBinding :: "Element \<Rightarrow> bool" where
  "isValidForTwoWayBinding element =
     (let tag = tagName element;
          type = (case element_type element of None \<Rightarrow> [] | Some t \<Rightarrow> t)
      in if tag = ''TEXTAREA'' \<or> tag = ''SELECT'' then True
         else if tag = ''INPUT'' then type \<in> set supportedTypes
         else if contentEditable element = Some ''true'' then True
         else if getAttribute element ''role'' = Some ''textbox'' then True
         else False)"

section \<open>Class directives (parsers/class-directive.js)\<close>

record ClassDirectiveValue =
  reactiveClasses :: "(string \<times> DirectiveValue) list"
  computedClass :: "DirectiveValue option"

definition new_ClassDirectiveValue :: ClassDirectiveValue where
  "new_ClassDirectiveValue = \<lparr>reactiveClasses = [], computedClass = None\<rparr>"

definition PREFIX_ATTRIBUTE :: string where "PREFIX_ATTRIBUTE = ''data-a-''"
definition PREFIX_PROPERTY :: string where "PREFIX_PROPERTY = ''data-p-''"
definition PREFIX_BEHAVIOR :: string where "PREFIX_BEHAVIOR = ''data-b-''"
definition PREFIX_MODEL :: string where "PREFIX_MODEL = ''data-m''"
definition PREFIX_CLASS :: string where "PREFIX_CLASS = ''data-c''"

function show_nat :: "nat \<Rightarrow> string" where
  \<comment> \<open>a length in a template literal: its decimal digits\<close>
  "show_nat n =
     (if n < 10 then [char_of (48 + n)] else show_nat (n div 10) @ [char_of (48 + n mod 10)])"
  by pat_completeness auto
termination
  by (relation "measure id") auto

definition conflict_message :: "string list \<Rightarrow> string" where
  "conflict_message dataCStarAttributes =
     ''Element has both '' @ PREFIX_CLASS @ '' and '' @ show_nat (length dataCStarAttributes)
       @ '' '' @ PREFIX_CLASS @ ''-* attributes. '' @ ''Only '' @ PREFIX_CLASS
       @ '' will be used. Ignored attributes: '' @ join dataCStarAttributes '', ''"

fun reactive_loop ::
  "(string \<times> string) list \<Rightarrow> ClassDirectiveValue \<times> string list
     \<Rightarrow> ClassDirectiveValue \<times> string list" where
  \<comment> \<open>the loop of the \<open>else\<close> branch, over all attributes\<close>
  "reactive_loop [] acc = acc"
| "reactive_loop ((name, value) # attrs) (result, warnings) =
     (if startsWith name (PREFIX_CLASS @ ''-'')
      then (let className = drop (length PREFIX_CLASS + 1) name;
                (dv, w) = parseDirectiveValue value
            in reactive_loop attrs
                 (result\<lparr>reactiveClasses := map_set (reactiveClasses result) className dv\<rparr>,
                  warnings @ w))
      else reactive_loop attrs (result, warnings))"

definition parseClassDirectives ::
  "(string \<times> string) list \<Rightarrow> ClassDirectiveValue \<times> string list" where
  "parseClassDirectives attrs =
     (let result = new_ClassDirectiveValue;
          hasDataC = map_has attrs PREFIX_CLASS;
          dataCValue =
            (if hasDataC
             then trim (case map_get attrs PREFIX_CLASS of None \<Rightarrow> [] | Some v \<Rightarrow> v)
             else []);
          dataCStarAttributes =
            filter (\<lambda>name. startsWith name (PREFIX_CLASS @ ''-'')) (map fst attrs)
      in if hasDataC \<and> length dataCValue > 0
         then (let (dv, w) = parseDirectiveValue dataCValue
               in (result\<lparr>computedClass := Some dv\<rparr>,
                   w @ (if length dataCStarAttributes > 0
                        then [conflict_message dataCStarAttributes] else [])))
         else reactive_loop attrs (result, []))"

section \<open>The scanner (parseDirectives in models/directive-parser/utils.js)\<close>

datatype prop_key = KeyName string | KeyObject string

record ParsedDirectives =
  attributeDirectives :: "(string \<times> DirectiveValue) list"
  propertyDirectives :: "(prop_key \<times> DirectiveValue) list"
  behaviorDirectives :: "(string \<times> DirectiveValue) list"
  modelDirective :: "DirectiveValue option"
  classDirective :: "ClassDirectiveValue option"

definition new_ParsedDirectives :: ParsedDirectives where
  "new_ParsedDirectives =
     \<lparr>attributeDirectives = [], propertyDirectives = [], behaviorDirectives = [],
      modelDirective = None, classDirective = None\<rparr>"

record scan_state =
  directives :: ParsedDirectives
  hasClassDirective :: bool
  warnings :: "string list"

definition not_valid_message :: "Element \<Rightarrow> string" where
  "not_valid_message element =
     PREFIX_MODEL @ '' is not valid on '' @ tagName element
       @ (case element_type element of
            None \<Rightarrow> []
          | Some t \<Rightarrow> if t \<noteq> [] then ''[type='' @ dquote @ t @ dquote @ '']'' else [])"

definition native_key :: "native \<Rightarrow> prop_key" where
  "native_key n = (case n of NativeName r \<Rightarrow> KeyName r | NativeObject r \<Rightarrow> KeyObject r
                   | NotNative \<Rightarrow> KeyName [])"

definition scan_attribute ::
  "(string \<Rightarrow> bool) \<Rightarrow> Element \<Rightarrow> scan_state \<Rightarrow> string \<times> string \<Rightarrow> scan_state" where
  \<comment> \<open>the body of the loop over \<open>attributes\<close>\<close>
  "scan_attribute in_prototype element st nv =
     (let name = fst nv; value = snd nv; ds = directives st
      in if startsWith name PREFIX_ATTRIBUTE then
           (let attrName = drop (length PREFIX_ATTRIBUTE) name;
                (dv, w) = parseAttributeDirective value
            in st\<lparr>directives := ds\<lparr>attributeDirectives :=
                      map_set (attributeDirectives ds) attrName dv\<rparr>,
                  warnings := warnings st @ w\<rparr>)
         else if startsWith name PREFIX_PROPERTY then
           (let nativeProp = isNativePropertyName in_prototype name PREFIX_PROPERTY
            in if truthy_native nativeProp then
                 (let (dv, w) = parseDirectiveValue value
                  in st\<lparr>directives := ds\<lparr>propertyDirectives :=
                            map_set (propertyDirectives ds) (native_key nativeProp) dv\<rparr>,
                        warnings := warnings st @ w\<rparr>)
               else
                 (let propName = attributeNameToPropertyName name PREFIX_PROPERTY;
                      (dv, w) = parsePropertyDirective value
                  in st\<lparr>directives := ds\<lparr>propertyDirectives :=
                            map_set (propertyDirectives ds) (KeyName propName) dv\<rparr>,
                        warnings := warnings st @ w\<rparr>))
         else if startsWith name PREFIX_BEHAVIOR then
           (let directiveName = drop (length PREFIX_BEHAVIOR) name;
                (dv, w) = parseBehaviorDirective value
            in st\<lparr>directives := ds\<lparr>behaviorDirectives :=
                      map_set (behaviorDirectives ds) directiveName dv\<rparr>,
                  warnings := warnings st @ w\<rparr>)
         else if name = PREFIX_MODEL then
           (if \<not> isValidForTwoWayBinding element
            then st\<lparr>warnings := warnings st @ [not_valid_message element]\<rparr>
            else st\<lparr>directives := ds\<lparr>modelDirective := Some (parseModelDirective value)\<rparr>\<rparr>)
         else if startsWith name (PREFIX_CLASS @ ''-'') \<or> name = PREFIX_CLASS then
           st\<lparr>hasClassDirective := True\<rparr>
         else st)"

definition parseDirectives ::
  "(string \<Rightarrow> bool) \<Rightarrow> Element \<Rightarrow> (string \<times> string) list option
     \<Rightarrow> ParsedDirectives \<times> string list" where
  "parseDirectives in_prototype element attributes_arg =
     (let attrs = (case attributes_arg of None \<Rightarrow> getElementAttrs element | Some a \<Rightarrow> a);
          st = foldl (scan_attribute in_prototype element)
                 \<lparr>directives = new_ParsedDirectives, hasClassDirective = False, warnings = []\<rparr>
                 attrs
      in if hasClassDirective st
         then (let (cd, w) = parseClassDirectives attrs
               in ((directives st)\<lparr>classDirective := Some cd\<rparr>, warnings st @ w))
         else (directives st, warnings st))"

section \<open>Notions used in the statements\<close>

text \<open>
  A camelCase name is a non-empty run of ASCII letters and digits that starts with a
  letter; a property path is a sequence of such names separated by single dots.
\<close>

fun is_camel_name :: "string \<Rightarrow> bool" where
  "is_camel_name [] = False"
| "is_camel_name (c # cs) = (is_letter c \<and> list_all is_alnum cs)"

definition is_camel_path :: "string \<Rightarrow> bool" where
  "is_camel_path n = list_all is_camel_name (split n ''.'')"


text \<open>
  The parts of a string around the first and around the last occurrence of a character,
  for the wording "everything after the last \<open>@\<close>", "everything before the first
  \<open>:\<close>".
\<close>

definition before_first :: "char \<Rightarrow> string \<Rightarrow> string" where
  "before_first c s = takeWhile (\<lambda>x. x \<noteq> c) s"

definition after_first :: "char \<Rightarrow> string \<Rightarrow> string" where
  "after_first c s = tl (dropWhile (\<lambda>x. x \<noteq> c) s)"

definition after_last :: "char \<Rightarrow> string \<Rightarrow> string" where
  "after_last c s = rev (takeWhile (\<lambda>x. x \<noteq> c) (rev s))"

definition before_last :: "char \<Rightarrow> string \<Rightarrow> string" where
  "before_last c s = rev (tl (dropWhile (\<lambda>x. x \<noteq> c) (rev s)))"

text \<open>
  The model directive grammar in the order the specification gives: the event after the
  last \<open>@\<close>, then the modifier chain after the first \<open>#\<close> of what is left, then target
  and DOM property around the first \<open>:\<close> of what is left.  Nothing is trimmed.
\<close>

definition model_event :: "string \<Rightarrow> string" where
  "model_event v = (if CHR ''@'' \<in> set v then after_last CHR ''@'' v else [])"

definition model_rest1 :: "string \<Rightarrow> string" where
  "model_rest1 v = (if CHR ''@'' \<in> set v then before_last CHR ''@'' v else v)"

definition model_modifiers :: "string \<Rightarrow> string" where
  "model_modifiers v =
     (if CHR ''#'' \<in> set (model_rest1 v) then after_first CHR ''#'' (model_rest1 v) else [])"

definition model_rest2 :: "string \<Rightarrow> string" where
  "model_rest2 v =
     (if CHR ''#'' \<in> set (model_rest1 v) then before_first CHR ''#'' (model_rest1 v)
      else model_rest1 v)"

definition model_directive_spec :: "string \<Rightarrow> DirectiveValue" where
  "model_directive_spec v =
     \<lparr>target = before_first CHR '':'' (model_rest2 v),
      domProperty =
        (if CHR '':'' \<in> set (model_rest2 v) then after_first CHR '':'' (model_rest2 v) else []),
      event = model_event v,
      eventModifiers =
        eventModifiers (set_modifiers new_DirectiveValue (parseModifiersString (model_modifiers v)))\<rparr>"









text \<open>
  Eligibility for two-way binding as the specification lists it: \<open>TEXTAREA\<close> and
  \<open>SELECT\<close> always; \<open>INPUT\<close> only for the listed types; any other element when its
  \<open>contentEditable\<close> is the string \<open>true\<close> or its attribute \<open>role\<close> is \<open>textbox\<close>.
\<close>

definition allowed_input_types :: "string set" where
  "allowed_input_types =
     {''text'', ''password'', ''email'', ''search'', ''tel'', ''url'', ''number'', ''range'',
      ''date'', ''time'', ''month'', ''week'', ''datetime-local'', ''color'', ''checkbox'',
      ''radio''}"

definition type_of_element :: "Element \<Rightarrow> string" where
  "type_of_element e = (case element_type e of None \<Rightarrow> [] | Some t \<Rightarrow> t)"

definition eligible_for_model :: "Element \<Rightarrow> bool" where
  "eligible_for_model e =
     (tagName e = ''TEXTAREA'' \<or> tagName e = ''SELECT'' \<or>
      (tagName e = ''INPUT'' \<and> type_of_element e \<in> allowed_input_types) \<or>
      (tagName e \<noteq> ''INPUT'' \<and>
         (contentEditable e = Some ''true'' \<or> getAttribute e ''role'' = Some ''textbox'')))"

definition scanned_attributes :: "Element \<Rightarrow> (string \<times> string) list option \<Rightarrow> (string \<times> string) list" where
  \<comment> \<open>the attribute map the scanner walks: the one supplied, else the element's own\<close>
  "scanned_attributes e arg = (case arg of None \<Rightarrow> getElementAttrs e | Some a \<Rightarrow> a)"

definition button_input :: Element where
  "button_input =
     \<lparr>tagName = ''INPUT'', element_type = Some ''button'', contentEditable = Some ''inherit'',
      attributes = [(''type'', ''button''), (''data-m'', ''form.email'')]\<rparr>"

definition no_native_properties :: "string \<Rightarrow> bool" where
  \<comment> \<open>a host whose \<open>Element.prototype\<close> has none of the names asked for\<close>
  "no_native_properties p = False"

definition class_shaped_star :: "string \<Rightarrow> bool" where
  \<comment> \<open>a \<open>data-c-*\<close> attribute name\<close>
  "class_shaped_star n = startsWith n ''data-c-''"

definition both_forms_blank :: Element where
  "both_forms_blank =
     \<lparr>tagName = ''DIV'', element_type = None, contentEditable = Some ''inherit'',
      attributes = [(''data-c'', []), (''data-c-active'', ''isActive'')]\<rparr>"

definition both_forms :: Element where
  "both_forms =
     \<lparr>tagName = ''DIV'', element_type = None, contentEditable = Some ''inherit'',
      attributes = [(''data-c'', ''cls''), (''data-c-active'', ''isActive'')]\<rparr>"

section \<open>Name codec: round trip and hyphen escapes\<close>


lemma alnum_not_special: "is_alnum c \<Longrightarrow> c \<noteq> CHR ''-'' \<and> c \<noteq> CHR ''.'' \<and> c \<noteq> CHR ''_''"
  by (auto simp: is_alnum_def is_letter_def is_upper_def is_lower_def is_digit_def code_def)

lemma lower_fix: "is_alnum c \<Longrightarrow> \<not> is_upper c \<Longrightarrow> toLowerCase_char c = c"
  by (auto simp: is_alnum_def is_letter_def is_upper_def is_lower_def is_digit_def code_def toLowerCase_char_def)

lemma code_char_of: "n < 256 \<Longrightarrow> code (char_of n) = n"
  by (simp add: code_def)

lemma upper_lower: "is_upper c \<Longrightarrow> toUpperCase_letter (toLowerCase_char c) = c"
  by (simp add: toUpperCase_letter_def toLowerCase_char_def is_lower_def is_upper_def code_char_of)
   (simp add: code_def)

lemma lower_of_upper: "is_upper c \<Longrightarrow> is_lower (toLowerCase_char c)"
  by (simp add: toLowerCase_char_def is_lower_def is_upper_def code_char_of)

lemma lower_not_special: "is_lower c \<Longrightarrow> c \<noteq> CHR ''-'' \<and> c \<noteq> CHR ''.'' \<and> c \<noteq> CHR ''_''"
  by (auto simp: is_lower_def code_def)

text \<open>encoding of a segment of letters and digits\<close>

lemma replace_chars_id: "\<forall>c\<in>set s. \<not> P c \<Longrightarrow> replace_chars s P f = s"
  by (induction s) (auto simp: replace_chars_def)

lemma encode_prop_Nil: "encode_prop [] = []"
  by (simp add: encode_prop_def replace_chars_def toLowerCase_def)

lemma encode_prop_Cons:
  assumes "is_alnum c" "list_all is_alnum s"
  shows "encode_prop (c # s) =
    (if is_upper c then CHR ''-'' # toLowerCase_char c # encode_prop s else c # encode_prop s)"
proof -
  have a: "\<forall>x\<in>set (c # s). \<not> x = CHR ''-''" "\<forall>x\<in>set (c # s). \<not> x = CHR ''.''"
    "\<forall>x\<in>set s. \<not> x = CHR ''-''" "\<forall>x\<in>set s. \<not> x = CHR ''.''"
    using assms alnum_not_special by (auto simp: list_all_iff)
  have m: "toLowerCase_char CHR ''-'' = CHR ''-''"
    by (simp add: toLowerCase_char_def is_upper_def code_def)
  show ?thesis
    unfolding encode_prop_def Let_def replace_chars_id[OF a(1)] replace_chars_id[OF a(2)]
      replace_chars_id[OF a(3)] replace_chars_id[OF a(4)]
    using assms(1) by (simp add: replace_chars_def toLowerCase_def m lower_fix)
qed

lemma kebab_Cons: "c \<noteq> CHR ''-'' \<Longrightarrow> kebab_to_camel (c # s) = c # kebab_to_camel s"
  by (cases s) auto

lemma kebab_encode: "list_all is_alnum s \<Longrightarrow> kebab_to_camel (encode_prop s) = s"
proof (induction s)
  case Nil
  then show ?case by (simp add: encode_prop_Nil)
next
  case (Cons c s)
  then have c: "is_alnum c" and s: "list_all is_alnum s" by simp_all
  show ?case
  proof (cases "is_upper c")
    case True
    then show ?thesis
      using Cons.IH[OF s] lower_of_upper[OF True] upper_lower[OF True]
      by (simp add: encode_prop_Cons[OF c s] is_letter_def)
  next
    case False
    then show ?thesis
      using Cons.IH[OF s] alnum_not_special[OF c]
      by (simp add: encode_prop_Cons[OF c s] kebab_Cons)
  qed
qed

lemma encode_chars:
  "list_all is_alnum s \<Longrightarrow> CHR ''.'' \<notin> set (encode_prop s) \<and> CHR ''_'' \<notin> set (encode_prop s)"
proof (induction s)
  case Nil
  then show ?case by (simp add: encode_prop_Nil)
next
  case (Cons c s)
  then have c: "is_alnum c" and s: "list_all is_alnum s" by simp_all
  show ?case
    using Cons.IH[OF s] alnum_not_special[OF c] lower_not_special[OF lower_of_upper, of c]
    by (auto simp: encode_prop_Cons[OF c s])
qed

lemma encode_no_double_hyphen:
  "list_all is_alnum s \<Longrightarrow> \<not> includes_str (encode_prop s) ''--''"
proof (induction s)
  case Nil
  then show ?case by (simp add: encode_prop_Nil)
next
  case (Cons c s)
  then have c: "is_alnum c" and s: "list_all is_alnum s" by simp_all
  show ?case
    using Cons.IH[OF s] alnum_not_special[OF c] lower_not_special[OF lower_of_upper, of c]
    by (auto simp: encode_prop_Cons[OF c s] startsWith_def)
qed

lemma encode_length_1:
  assumes "list_all is_alnum s" "length (encode_prop s) = 1"
  shows "encode_prop s = s"
proof (cases s)
  case Nil
  then show ?thesis by (simp add: encode_prop_Nil)
next
  case (Cons c t)
  then have c: "is_alnum c" and t: "list_all is_alnum t" using assms(1) by simp_all
  have e: "length (encode_prop (c # t)) = (if is_upper c then 2 else 1) + length (encode_prop t)"
    by (simp add: encode_prop_Cons[OF c t])
  have "t = [] \<and> \<not> is_upper c"
  proof (cases t)
    case Nil
    then show ?thesis using e assms(2) \<open>s = c # t\<close> by (auto split: if_splits)
  next
    case (Cons d u)
    then have d: "is_alnum d" and u: "list_all is_alnum u" using t by simp_all
    have "length (encode_prop t) > 0"
      unfolding Cons by (simp add: encode_prop_Cons[OF d u])
    then show ?thesis using e assms(2) \<open>s = c # t\<close> by (auto split: if_splits)
  qed
  then show ?thesis
    using encode_prop_Cons[OF c t] unfolding \<open>s = c # t\<close> by (simp add: encode_prop_Nil)
qed

lemma convert_segment_encode:
  "list_all is_alnum s \<Longrightarrow> convert_segment (encode_prop s) = s"
  by (simp add: convert_segment_def encode_no_double_hyphen convert_piece_def
      kebab_encode encode_length_1)


text \<open>split and join at a one-character separator\<close>

lemma split_Cons1:
  "split (c # cs) [d] =
     (if c = d then [] # split cs [d]
      else (case split cs [d] of [] \<Rightarrow> [[c]] | p # ps \<Rightarrow> (c # p) # ps))"
  by (simp add: startsWith_def)

lemma split_not_Nil: "split s sep \<noteq> []"
  by (induction s sep rule: split.induct) (auto split: list.splits)

lemma join_Cons_ne: "ps \<noteq> [] \<Longrightarrow> join (p # ps) sep = p @ sep @ join ps sep"
  by (cases ps) auto

lemma join_Cons_Cons: "join ((c # p) # ps) sep = c # join (p # ps) sep"
  by (cases ps) auto

lemma join_split1: "join (split s [d]) [d] = s"
proof (induction s)
  case Nil
  then show ?case by simp
next
  case (Cons c s)
  obtain p ps where sp: "split s [d] = p # ps"
    using split_not_Nil[of s "[d]"] by (cases "split s [d]") auto
  show ?case
    using Cons.IH unfolding split_Cons1 sp
    by (simp add: join_Cons_ne join_Cons_Cons)
qed

lemma split_no_sep: "d \<notin> set p \<Longrightarrow> split p [d] = [p]"
  by (induction p) (auto simp: startsWith_def)

lemma split_append1: "d \<notin> set p \<Longrightarrow> split (p @ d # r) [d] = p # split r [d]"
proof (induction p)
  case Nil
  then show ?case by (simp add: startsWith_def)
next
  case (Cons c p)
  then show ?case by (auto simp: startsWith_def)
qed

lemma split_join1:
  "ps \<noteq> [] \<Longrightarrow> \<forall>p\<in>set ps. d \<notin> set p \<Longrightarrow> split (join ps [d]) [d] = ps"
proof (induction ps "[d]" rule: join.induct)
  case 1
  then show ?case by simp
next
  case (2 p)
  then show ?case by (simp add: split_no_sep)
next
  case (3 p q ps)
  then show ?case by (simp add: split_append1)
qed

lemma set_join: "set (join ps sep) \<subseteq> (\<Union>p\<in>set ps. set p) \<union> set sep"
  by (induction ps sep rule: join.induct) auto

text \<open>replacement that finds nothing to replace\<close>

lemma replace_all_absent: "pat \<noteq> [] \<Longrightarrow> hd pat \<notin> set s \<Longrightarrow> replace_all s pat rep = s"
proof (induction s)
  case Nil
  then show ?case by simp
next
  case (Cons c s)
  then have "\<not> startsWith (c # s) pat"
    by (cases pat) (auto simp: startsWith_def)
  then show ?case using Cons by simp
qed

lemma replace_dots_append:
  "CHR ''.'' \<notin> set p \<Longrightarrow> replace_all (p @ r) ''..'' m = p @ replace_all r ''..'' m"
  by (induction p) (auto simp: startsWith_def)

lemma replace_dots_single:
  "r \<noteq> [] \<Longrightarrow> hd r \<noteq> CHR ''.'' \<Longrightarrow>
     replace_all (CHR ''.'' # r) ''..'' m = CHR ''.'' # replace_all r ''..'' m"
  by (cases r) (auto simp: startsWith_def)

lemma replace_dots_join:
  "\<forall>p\<in>set ps. p \<noteq> [] \<and> CHR ''.'' \<notin> set p \<Longrightarrow>
     replace_all (join ps ''.'') ''..'' m = join ps ''.''"
proof (induction ps "''.''" rule: join.induct)
  case 1
  then show ?case by simp
next
  case (2 p)
  then show ?case using replace_dots_append[of p "[]" m] by simp
next
  case (3 p q ps)
  then obtain c q' where q: "q = c # q'" "c \<noteq> CHR ''.''" by (cases q) auto
  have p: "CHR ''.'' \<notin> set p" using 3(2) by simp
  have ih: "replace_all (join (q # ps) ''.'') ''..'' m = join (q # ps) ''.''"
    using 3 by simp
  have j: "join (q # ps) ''.'' = c # join (q' # ps) ''.''"
    unfolding q(1) by (rule join_Cons_Cons)
  have "replace_all (p @ CHR ''.'' # c # join (q' # ps) ''.'') ''..'' m
          = p @ replace_all (CHR ''.'' # c # join (q' # ps) ''.'') ''..'' m"
    by (rule replace_dots_append[OF p])
  also have "\<dots> = p @ CHR ''.'' # replace_all (c # join (q' # ps) ''.'') ''..'' m"
    using replace_dots_single[of "c # join (q' # ps) ''.''" m] q(2) by simp
  also have "\<dots> = p @ CHR ''.'' # c # join (q' # ps) ''.''"
    using ih unfolding j by simp
  finally show ?case unfolding join.simps j by simp
qed

lemma camel_name_alnum: "is_camel_name s \<Longrightarrow> s \<noteq> [] \<and> list_all is_alnum s"
  by (cases s) (auto simp: is_alnum_def)

lemma encode_nonempty: "list_all is_alnum s \<Longrightarrow> s \<noteq> [] \<Longrightarrow> encode_prop s \<noteq> []"
proof (cases s)
  case Nil
  then show "s \<noteq> [] \<Longrightarrow> ?thesis" by simp
next
  case (Cons c t)
  assume "list_all is_alnum s"
  then have c: "is_alnum c" and t: "list_all is_alnum t" using Cons by simp_all
  show ?thesis unfolding Cons by (simp add: encode_prop_Cons[OF c t])
qed

lemma decode_encode_segments:
  assumes ne: "segs \<noteq> []" and cam: "\<forall>s\<in>set segs. s \<noteq> [] \<and> list_all is_alnum s"
  shows "attributeNameToPropertyName (propertyNameToAttributeName (PropArray segs) prefix) prefix
           = join segs ''.''"
proof -
  let ?enc = "map encode_prop segs"
  let ?body = "join ?enc ''.''"
  have e1: "\<forall>p\<in>set ?enc. p \<noteq> [] \<and> CHR ''.'' \<notin> set p"
    using cam encode_nonempty encode_chars by auto
  have e2: "\<forall>p\<in>set ?enc. CHR ''.'' \<notin> set p" using e1 by blast
  have st: "startsWith (prefix @ ?body) prefix" by (simp add: startsWith_def)
  have r1: "replace_all ?body ''..'' DOT_MARKER = ?body"
    by (rule replace_dots_join[OF e1])
  have sp: "split ?body ''.'' = ?enc"
    using split_join1[of ?enc "CHR ''.''"] ne e2 by simp
  have cv: "map convert_segment ?enc = segs"
    using cam by (induction segs) (auto simp: convert_segment_encode)
  have us: "CHR ''_'' \<notin> set (join segs ''.'')"
  proof
    assume "CHR ''_'' \<in> set (join segs ''.'')"
    then have "CHR ''_'' \<in> (\<Union>p\<in>set segs. set p) \<union> set ''.''"
      using set_join[of segs "''.''"] by blast
    then obtain p where "p \<in> set segs" "CHR ''_'' \<in> set p" by auto
    then have "is_alnum CHR ''_''" using cam by (auto simp: list_all_iff)
    then show False using alnum_not_special by blast
  qed
  have r2: "replace_all (join segs ''.'') DOT_MARKER ''..'' = join segs ''.''"
    by (rule replace_all_absent) (use us in \<open>simp_all add: DOT_MARKER_def\<close>)
  show ?thesis
    unfolding propertyNameToAttributeName_def attributeNameToPropertyName_def Let_def
    using st cv by (simp add: r1 sp r2 del: map_map)
qed

text \<open>
  Claim C1.  For every camelCase property name \<open>n\<close> (letters and digits, not starting
  with a digit; several such names may be joined by single dots into a path),
  decoding the attribute name that \<open>propertyNameToAttributeName\<close> produces for \<open>n\<close>
  gives \<open>n\<close> back, both functions taking the default prefix \<open>data-\<close>.
\<close>

theorem name_codec_round_trip:
  assumes "is_camel_path n"
  shows "attributeNameToPropertyName (propertyNameToAttributeName (PropString n) default_prefix)
           default_prefix = n"
proof -
  let ?segs = "split n ''.''"
  have ne: "?segs \<noteq> []" by (rule split_not_Nil)
  have cam: "\<forall>s\<in>set ?segs. s \<noteq> [] \<and> list_all is_alnum s"
    using assms camel_name_alnum by (auto simp: is_camel_path_def list_all_iff)
  have "propertyNameToAttributeName (PropString n) default_prefix
          = propertyNameToAttributeName (PropArray ?segs) default_prefix"
    by (simp add: propertyNameToAttributeName_def)
  then show ?thesis
    using decode_encode_segments[OF ne cam, of default_prefix] join_split1[of n "CHR ''.''"]
    by simp
qed

theorem name_codec_round_trip_witness:
  "is_camel_path ''user.firstName'' \<and>
   propertyNameToAttributeName (PropString ''user.firstName'') default_prefix = ''data-user.first-name'' \<and>
   attributeNameToPropertyName ''data-user.first-name'' default_prefix = ''user.firstName''"
proof -
  have c: "is_camel_path ''user.firstName''" by code_simp
  have e: "propertyNameToAttributeName (PropString ''user.firstName'') default_prefix = ''data-user.first-name''"
    by code_simp
  show ?thesis using c e name_codec_round_trip[OF c] by simp
qed


lemma code_inj: "code c = code d \<Longrightarrow> c = d"
  by (simp add: code_def)









section \<open>Model directive: the order of the split\<close>


lemma indexOf_absent: "c \<notin> set s \<Longrightarrow> indexOf s c = - 1"
  by (induction s) auto

lemma indexOf_present: "c \<in> set s \<Longrightarrow> indexOf s c = int (length (takeWhile (\<lambda>x. x \<noteq> c) s))"
proof (induction s)
  case Nil
  then show ?case by simp
next
  case (Cons x s)
  show ?case
  proof (cases "x = c")
    case True
    then show ?thesis by simp
  next
    case False
    then have "c \<in> set s" using Cons.prems by simp
    then have "indexOf s c = int (length (takeWhile (\<lambda>x. x \<noteq> c) s))" by (rule Cons.IH)
    then show ?thesis using False by (simp add: Let_def)
  qed
qed

lemma slice_take: "n \<le> length s \<Longrightarrow> slice s 0 (int n) = take n s"
  by (simp add: slice_def Let_def min_def)

lemma slice_from_drop: "n \<le> length s \<Longrightarrow> slice_from s (int n) = drop n s"
  by (simp add: slice_from_def slice_def Let_def min_def)

lemma take_takeWhile: "take (length (takeWhile P s)) s = takeWhile P s"
  by (induction s) auto

lemma drop_takeWhile: "drop (length (takeWhile P s)) s = dropWhile P s"
  by (induction s) auto

lemma takeWhile_shorter: "c \<in> set s \<Longrightarrow> length (takeWhile (\<lambda>x. x \<noteq> c) s) < length s"
  by (induction s) auto

lemma first_split:
  assumes "c \<in> set s"
  shows "indexOf s c \<noteq> - 1"
    and "slice s 0 (indexOf s c) = before_first c s"
    and "slice_from s (indexOf s c + 1) = after_first c s"
proof -
  let ?k = "length (takeWhile (\<lambda>x. x \<noteq> c) s)"
  have i: "indexOf s c = int ?k" by (rule indexOf_present[OF assms])
  have lt: "?k < length s" by (rule takeWhile_shorter[OF assms])
  show "indexOf s c \<noteq> - 1" unfolding i by simp
  show "slice s 0 (indexOf s c) = before_first c s"
    unfolding i using lt by (simp add: slice_take take_takeWhile before_first_def)
  have "slice_from s (int (Suc ?k)) = drop (Suc ?k) s"
    by (rule slice_from_drop) (use lt in simp)
  also have "\<dots> = tl (drop ?k s)" by (simp add: drop_Suc drop_tl)
  finally show "slice_from s (indexOf s c + 1) = after_first c s"
    unfolding i by (simp add: drop_takeWhile after_first_def add.commute)
qed

lemma last_split:
  assumes "c \<in> set s"
  shows "lastIndexOf s c \<noteq> - 1"
    and "slice s 0 (lastIndexOf s c) = before_last c s"
    and "slice_from s (lastIndexOf s c + 1) = after_last c s"
proof -
  let ?k = "length (takeWhile (\<lambda>x. x \<noteq> c) (rev s))"
  have cr: "c \<in> set (rev s)" using assms by simp
  have i: "indexOf (rev s) c = int ?k" by (rule indexOf_present[OF cr])
  have lt: "?k < length s" using takeWhile_shorter[OF cr] by simp
  have l: "lastIndexOf s c = int (length s - 1 - ?k)"
    using lt by (simp add: lastIndexOf_def i Let_def)
  show "lastIndexOf s c \<noteq> - 1" unfolding l by simp
  have "slice s 0 (int (length s - 1 - ?k)) = take (length s - 1 - ?k) s"
    by (rule slice_take) simp
  also have "\<dots> = rev (drop (Suc ?k) (rev s))"
    by (simp add: drop_rev)
  also have "\<dots> = rev (tl (drop ?k (rev s)))" by (simp add: drop_Suc drop_tl)
  finally show "slice s 0 (lastIndexOf s c) = before_last c s"
    unfolding l by (simp add: drop_takeWhile before_last_def)
  have e: "lastIndexOf s c + 1 = int (length s - ?k)" unfolding l using lt by simp
  have "slice_from s (int (length s - ?k)) = drop (length s - ?k) s"
    by (rule slice_from_drop) simp
  also have "\<dots> = rev (take ?k (rev s))" by (simp add: take_rev)
  finally show "slice_from s (lastIndexOf s c + 1) = after_last c s"
    unfolding e by (simp add: take_takeWhile after_last_def)
qed

lemma lastIndexOf_absent: "c \<notin> set s \<Longrightarrow> lastIndexOf s c = - 1"
  by (simp add: lastIndexOf_def indexOf_absent)

lemma parseModifiersString_empty: "parseModifiersString [] = []"
  by (simp add: parseModifiersString_def)


lemma set_modifiers_Nil: "set_modifiers d [] = d"
  by (simp add: set_modifiers_def)

lemma set_modifiers_Cons:
  "set_modifiers d ((n, a) # ms)
     = set_modifiers (d\<lparr>eventModifiers := map_set (eventModifiers d) n a\<rparr>) ms"
  by (simp add: set_modifiers_def)

lemma set_modifiers_fields:
  "target (set_modifiers d ms) = target d \<and> domProperty (set_modifiers d ms) = domProperty d \<and>
   event (set_modifiers d ms) = event d"
proof (induction ms arbitrary: d)
  case Nil
  show ?case by (simp add: set_modifiers_Nil)
next
  case (Cons p ms)
  obtain n a where p: "p = (n, a)" by (cases p)
  show ?case unfolding p set_modifiers_Cons using Cons[of "d\<lparr>eventModifiers := map_set (eventModifiers d) n a\<rparr>"]
    by simp
qed

lemma set_modifiers_mods:
  "eventModifiers d = eventModifiers d' \<Longrightarrow>
     eventModifiers (set_modifiers d ms) = eventModifiers (set_modifiers d' ms)"
proof (induction ms arbitrary: d d')
  case Nil
  then show ?case by (simp add: set_modifiers_Nil)
next
  case (Cons p ms)
  obtain n a where p: "p = (n, a)" by (cases p)
  show ?case unfolding p set_modifiers_Cons
    by (rule Cons.IH) (simp add: Cons.prems)
qed


lemma set_modifiers_record:
  "set_modifiers d ms =
     \<lparr>target = target d, domProperty = domProperty d, event = event d,
      eventModifiers = eventModifiers (set_modifiers d ms)\<rparr>"
  using set_modifiers_fields[of d ms] by (intro DirectiveValue.equality) simp_all

lemma model_steps:
  "(if lastIndexOf v CHR ''@'' \<noteq> - 1 then slice_from v (lastIndexOf v CHR ''@'' + 1) else [])
     = model_event v"
  "(if lastIndexOf v CHR ''@'' \<noteq> - 1 then slice v 0 (lastIndexOf v CHR ''@'') else v)
     = model_rest1 v"
  "(if indexOf (model_rest1 v) CHR ''#'' \<noteq> - 1
    then slice_from (model_rest1 v) (indexOf (model_rest1 v) CHR ''#'' + 1) else [])
     = model_modifiers v"
  "(if indexOf (model_rest1 v) CHR ''#'' \<noteq> - 1
    then slice (model_rest1 v) 0 (indexOf (model_rest1 v) CHR ''#'') else model_rest1 v)
     = model_rest2 v"
proof -
  show "(if lastIndexOf v CHR ''@'' \<noteq> - 1 then slice_from v (lastIndexOf v CHR ''@'' + 1) else [])
     = model_event v"
    by (cases "CHR ''@'' \<in> set v") (simp_all add: model_event_def last_split lastIndexOf_absent)
  show "(if lastIndexOf v CHR ''@'' \<noteq> - 1 then slice v 0 (lastIndexOf v CHR ''@'') else v)
     = model_rest1 v"
    by (cases "CHR ''@'' \<in> set v") (simp_all add: model_rest1_def last_split lastIndexOf_absent)
  show "(if indexOf (model_rest1 v) CHR ''#'' \<noteq> - 1
    then slice_from (model_rest1 v) (indexOf (model_rest1 v) CHR ''#'' + 1) else [])
     = model_modifiers v"
    by (cases "CHR ''#'' \<in> set (model_rest1 v)")
      (simp_all add: model_modifiers_def first_split indexOf_absent)
  show "(if indexOf (model_rest1 v) CHR ''#'' \<noteq> - 1
    then slice (model_rest1 v) 0 (indexOf (model_rest1 v) CHR ''#'') else model_rest1 v)
     = model_rest2 v"
    by (cases "CHR ''#'' \<in> set (model_rest1 v)")
      (simp_all add: model_rest2_def first_split indexOf_absent)
qed

lemma parseModelDirective_unfold:
  "parseModelDirective v =
     (let d = (if indexOf (model_rest2 v) CHR '':'' \<noteq> - 1
               then \<lparr>target = slice (model_rest2 v) 0 (indexOf (model_rest2 v) CHR '':''),
                     domProperty = slice_from (model_rest2 v) (indexOf (model_rest2 v) CHR '':'' + 1),
                     event = model_event v, eventModifiers = []\<rparr>
               else \<lparr>target = model_rest2 v, domProperty = [], event = model_event v,
                     eventModifiers = []\<rparr>)
      in if model_modifiers v \<noteq> [] then set_modifiers d (parseModifiersString (model_modifiers v))
         else d)"
proof -
  have ev: "(if lastIndexOf v CHR ''@'' \<noteq> - 1
             then new_DirectiveValue\<lparr>event := slice_from v (lastIndexOf v CHR ''@'' + 1)\<rparr>
             else new_DirectiveValue)
            = new_DirectiveValue\<lparr>event := model_event v\<rparr>"
    using model_steps(1)[of v] by (auto simp: new_DirectiveValue_def split: if_splits)
  show ?thesis
    unfolding parseModelDirective_def Let_def ev model_steps
    by (simp add: new_DirectiveValue_def)
qed

lemma model_colon:
  "(if indexOf r CHR '':'' \<noteq> - 1
    then \<lparr>target = slice r 0 (indexOf r CHR '':''),
          domProperty = slice_from r (indexOf r CHR '':'' + 1),
          event = e, eventModifiers = []\<rparr>
    else \<lparr>target = r, domProperty = [], event = e, eventModifiers = []\<rparr>)
   = \<lparr>target = before_first CHR '':'' r,
      domProperty = (if CHR '':'' \<in> set r then after_first CHR '':'' r else []),
      event = e, eventModifiers = []\<rparr>"
proof (cases "CHR '':'' \<in> set r")
  case True
  then show ?thesis by (simp add: first_split)
next
  case False
  then have "before_first CHR '':'' r = r" by (auto simp: before_first_def)
  then show ?thesis using False by (simp add: indexOf_absent)
qed

lemma parseModelDirective_spec: "parseModelDirective v = model_directive_spec v"
proof -
  let ?d = "\<lparr>target = before_first CHR '':'' (model_rest2 v),
      domProperty = (if CHR '':'' \<in> set (model_rest2 v) then after_first CHR '':'' (model_rest2 v) else []),
      event = model_event v, eventModifiers = []\<rparr>"
  let ?ms = "parseModifiersString (model_modifiers v)"
  have "parseModelDirective v = (if model_modifiers v \<noteq> [] then set_modifiers ?d ?ms else ?d)"
    unfolding parseModelDirective_unfold model_colon Let_def ..
  also have "\<dots> = set_modifiers ?d ?ms"
    by (simp add: parseModifiersString_empty set_modifiers_Nil)
  also have "\<dots> = \<lparr>target = target ?d, domProperty = domProperty ?d, event = event ?d,
      eventModifiers = eventModifiers (set_modifiers ?d ?ms)\<rparr>"
    by (rule set_modifiers_record)
  also have "eventModifiers (set_modifiers ?d ?ms)
      = eventModifiers (set_modifiers new_DirectiveValue ?ms)"
    by (rule set_modifiers_mods) (simp add: new_DirectiveValue_def)
  finally show ?thesis by (simp add: model_directive_spec_def)
qed

lemma model_recompose:
  "v = model_rest2 v
         @ (if CHR ''#'' \<in> set (model_rest1 v) then CHR ''#'' # model_modifiers v else [])
         @ (if CHR ''@'' \<in> set v then CHR ''@'' # model_event v else [])"
proof -
  have f: "\<And>c s. c \<in> set s \<Longrightarrow> s = before_first c s @ c # after_first c s"
  proof -
    fix c :: char and s assume "c \<in> set s"
    then have "dropWhile (\<lambda>x. x \<noteq> c) s \<noteq> []" by simp
    then have "dropWhile (\<lambda>x. x \<noteq> c) s = c # tl (dropWhile (\<lambda>x. x \<noteq> c) s)"
      using hd_dropWhile[of "\<lambda>x. x \<noteq> c" s] by (cases "dropWhile (\<lambda>x. x \<noteq> c) s") auto
    then show "s = before_first c s @ c # after_first c s"
      unfolding before_first_def after_first_def
      using takeWhile_dropWhile_id[of "\<lambda>x. x \<noteq> c" s] by simp
  qed
  have l: "\<And>c s. c \<in> set s \<Longrightarrow> s = before_last c s @ c # after_last c s"
  proof -
    fix c :: char and s assume "c \<in> set s"
    then have "c \<in> set (rev s)" by simp
    from f[OF this] have "rev (rev s) = rev (before_first c (rev s) @ c # after_first c (rev s))"
      by simp
    then show "s = before_last c s @ c # after_last c s"
      by (simp add: before_first_def after_first_def before_last_def after_last_def)
  qed
  have a: "v = model_rest1 v @ (if CHR ''@'' \<in> set v then CHR ''@'' # model_event v else [])"
    using l[of "CHR ''@''" v] by (simp add: model_rest1_def model_event_def)
  have b: "model_rest1 v = model_rest2 v
         @ (if CHR ''#'' \<in> set (model_rest1 v) then CHR ''#'' # model_modifiers v else [])"
    using f[of "CHR ''#''" "model_rest1 v"] by (simp add: model_rest2_def model_modifiers_def)
  show ?thesis using a b by (metis append.assoc)
qed

text \<open>
  Claim C2.  For every input, \<open>parseModelDirective\<close> takes the event after the last
  \<open>@\<close>, then the modifier chain after the first \<open>#\<close> of the remainder, then target and
  DOM property around the first \<open>:\<close> of what remains (no colon: the DOM property stays
  empty).  Nothing is trimmed: the pieces, put back together with their separators, are
  the input.  The example of the specification parses as stated.
\<close>

theorem parseModelDirective_order:
  "parseModelDirective v = model_directive_spec v \<and>
   v = model_rest2 v
         @ (if CHR ''#'' \<in> set (model_rest1 v) then CHR ''#'' # model_modifiers v else [])
         @ (if CHR ''@'' \<in> set v then CHR ''@'' # model_event v else []) \<and>
   parseModelDirective ''form.email:value#debounce(400)@input'' =
     \<lparr>target = ''form.email'', domProperty = ''value'', event = ''input'',
      eventModifiers = [(''debounce'', [ANum (Fin 400)])]\<rparr>"
proof -
  have "parseModelDirective ''form.email:value#debounce(400)@input'' =
     \<lparr>target = ''form.email'', domProperty = ''value'', event = ''input'',
      eventModifiers = [(''debounce'', [ANum (Fin 400)])]\<rparr>"
    by code_simp
  then show ?thesis using parseModelDirective_spec[of v] model_recompose[of v] by blast
qed

theorem parseModelDirective_order_witness:
  "parseModelDirective ''  my@Value : p #trim@input '' =
     \<lparr>target = ''  my@Value '', domProperty = '' p '', event = ''input '',
      eventModifiers = [(''trim'', [])]\<rparr>"
proof -
  have "model_directive_spec ''  my@Value : p #trim@input '' =
     \<lparr>target = ''  my@Value '', domProperty = '' p '', event = ''input '',
      eventModifiers = [(''trim'', [])]\<rparr>"
    by code_simp
  then show ?thesis
    using parseModelDirective_order[of "''  my@Value : p #trim@input ''"] by simp
qed

section \<open>Modifier grammar\<close>





















section \<open>The scanner: model directives\<close>


lemma valid_iff_eligible: "isValidForTwoWayBinding e = eligible_for_model e"
  by (auto simp: isValidForTwoWayBinding_def eligible_for_model_def Let_def
      supportedTypes_def allowed_input_types_def type_of_element_def)

lemma model_name_no_prefix:
  "\<not> startsWith PREFIX_MODEL PREFIX_ATTRIBUTE" "\<not> startsWith PREFIX_MODEL PREFIX_PROPERTY"
  "\<not> startsWith PREFIX_MODEL PREFIX_BEHAVIOR"
  by (simp_all add: startsWith_def PREFIX_MODEL_def PREFIX_ATTRIBUTE_def PREFIX_PROPERTY_def
      PREFIX_BEHAVIOR_def)

lemma scan_model_attribute:
  "scan_attribute h e st (PREFIX_MODEL, v) =
     (if \<not> isValidForTwoWayBinding e
      then st\<lparr>warnings := warnings st @ [not_valid_message e]\<rparr>
      else st\<lparr>directives := (directives st)\<lparr>modelDirective := Some (parseModelDirective v)\<rparr>\<rparr>)"
  by (simp add: scan_attribute_def model_name_no_prefix Let_def)

lemma scan_other_model:
  "n \<noteq> PREFIX_MODEL \<Longrightarrow>
     modelDirective (directives (scan_attribute h e st (n, v))) = modelDirective (directives st)"
  by (simp add: scan_attribute_def Let_def split: prod.splits)

lemma scan_warnings_mono: "set (warnings st) \<subseteq> set (warnings (scan_attribute h e st nv))"
  by (cases nv) (auto simp: scan_attribute_def Let_def split: prod.splits)

lemma scan_all_warnings_mono:
  "set (warnings st) \<subseteq> set (warnings (foldl (scan_attribute h e) st attrs))"
proof (induction attrs arbitrary: st)
  case Nil
  show ?case by simp
next
  case (Cons nv attrs)
  show ?case using scan_warnings_mono[of st h e nv] Cons[of "scan_attribute h e st nv"] by auto
qed

lemma scan_all_keep_model:
  "PREFIX_MODEL \<notin> fst ` set attrs \<Longrightarrow>
     modelDirective (directives (foldl (scan_attribute h e) st attrs)) = modelDirective (directives st)"
proof (induction attrs arbitrary: st)
  case Nil
  show ?case by simp
next
  case (Cons nv attrs)
  obtain n v where nv: "nv = (n, v)" by (cases nv)
  have n: "n \<noteq> PREFIX_MODEL" and r: "PREFIX_MODEL \<notin> fst ` set attrs"
    using Cons.prems nv by auto
  show ?case using Cons.IH[OF r, where st = "scan_attribute h e st nv"]
      scan_other_model[OF n, where h = h and e = e and st = st and v = v]
    by (simp add: nv)
qed

lemma scan_all_model:
  assumes "distinct (map fst attrs)" "map_of attrs PREFIX_MODEL = Some value"
  shows "modelDirective (directives (foldl (scan_attribute h e) st attrs))
           = (if isValidForTwoWayBinding e then Some (parseModelDirective value)
              else modelDirective (directives st))"
  using assms
proof (induction attrs arbitrary: st)
  case Nil
  then show ?case by simp
next
  case (Cons nv attrs)
  obtain n v where nv: "nv = (n, v)" by (cases nv)
  let ?next = "scan_attribute h e st nv"
  show ?case
  proof (cases "n = PREFIX_MODEL")
    case True
    then have v: "v = value" using Cons.prems(2) nv by simp
    have r: "PREFIX_MODEL \<notin> fst ` set attrs" using Cons.prems(1) nv True by auto
    have k: "modelDirective (directives (foldl (scan_attribute h e) ?next attrs))
              = modelDirective (directives ?next)"
      by (rule scan_all_keep_model[OF r])
    have "modelDirective (directives ?next)
            = (if isValidForTwoWayBinding e then Some (parseModelDirective value)
               else modelDirective (directives st))"
      unfolding nv True v scan_model_attribute by simp
    then show ?thesis using k by simp
  next
    case False
    then have a: "distinct (map fst attrs)" "map_of attrs PREFIX_MODEL = Some value"
      using Cons.prems nv by auto
    have "modelDirective (directives ?next) = modelDirective (directives st)"
      unfolding nv by (rule scan_other_model[OF False])
    then show ?thesis using Cons.IH[OF a, of ?next] by simp
  qed
qed

lemma scan_all_model_warning:
  assumes "\<not> isValidForTwoWayBinding e" "map_of attrs PREFIX_MODEL = Some value"
  shows "not_valid_message e \<in> set (warnings (foldl (scan_attribute h e) st attrs))"
  using assms(2)
proof (induction attrs arbitrary: st)
  case Nil
  then show ?case by simp
next
  case (Cons nv attrs)
  obtain n v where nv: "nv = (n, v)" by (cases nv)
  let ?next = "scan_attribute h e st nv"
  show ?case
  proof (cases "n = PREFIX_MODEL")
    case True
    have "not_valid_message e \<in> set (warnings ?next)"
      unfolding nv True scan_model_attribute using assms(1) by simp
    then show ?thesis
      using scan_all_warnings_mono[of ?next h e attrs] by auto
  next
    case False
    then have a: "map_of attrs PREFIX_MODEL = Some value" using Cons.prems nv by auto
    show ?thesis using Cons.IH[OF a, of ?next] by simp
  qed
qed

lemma parseDirectives_model:
  assumes "distinct (map fst (scanned_attributes e arg))"
    "map_of (scanned_attributes e arg) PREFIX_MODEL = Some value"
  shows "modelDirective (fst (parseDirectives h e arg))
           = (if eligible_for_model e then Some (parseModelDirective value) else None)"
    and "\<not> eligible_for_model e \<Longrightarrow> not_valid_message e \<in> set (snd (parseDirectives h e arg))"
proof -
  let ?attrs = "scanned_attributes e arg"
  let ?init = "\<lparr>directives = new_ParsedDirectives, hasClassDirective = False, warnings = []\<rparr>"
  let ?st = "foldl (scan_attribute h e) ?init ?attrs"
  have m: "modelDirective (directives ?st)
           = (if eligible_for_model e then Some (parseModelDirective value) else None)"
    using scan_all_model[OF assms, where st = ?init and h = h and e = e]
    by (simp add: valid_iff_eligible new_ParsedDirectives_def)
  have p: "parseDirectives h e arg =
      (if hasClassDirective ?st
       then (let (cd, w) = parseClassDirectives ?attrs
             in ((directives ?st)\<lparr>classDirective := Some cd\<rparr>, warnings ?st @ w))
       else (directives ?st, warnings ?st))"
    by (simp add: parseDirectives_def scanned_attributes_def Let_def)
  show "modelDirective (fst (parseDirectives h e arg))
           = (if eligible_for_model e then Some (parseModelDirective value) else None)"
    unfolding p using m by (simp split: prod.splits)
  assume "\<not> eligible_for_model e"
  then have "not_valid_message e \<in> set (warnings ?st)"
    using scan_all_model_warning[OF _ assms(2), where st = ?init and h = h and e = e]
    by (simp add: valid_iff_eligible)
  then show "not_valid_message e \<in> set (snd (parseDirectives h e arg))"
    unfolding p by (simp split: prod.splits)
qed



lemma keys_map_set:
  "map fst (map_set m k v) = (if k \<in> set (map fst m) then map fst m else map fst m @ [k])"
  by (induction m k v rule: map_set.induct) auto

lemma distinct_getElementAttrs: "distinct (map fst (getElementAttrs e))"
proof -
  have "\<And>m. distinct (map fst m) \<Longrightarrow>
          distinct (map fst (foldl (\<lambda>attrs (name, value). map_set attrs name value) m xs))" for xs :: "(string \<times> string) list"
  proof (induction xs)
    case Nil
    then show ?case by simp
  next
    case (Cons x xs)
    obtain n v where x: "x = (n, v)" by (cases x)
    have "distinct (map fst (map_set m n v))" using Cons.prems by (simp add: keys_map_set)
    then show ?case using Cons.IH[of "map_set m n v"] by (simp add: x)
  qed
  from this[of "[]"] show ?thesis by (simp add: getElementAttrs_def)
qed

text \<open>
  Claim C6.  For an element whose scanned attributes hold \<open>data-m\<close>, the scanner stores
  the parsed model directive exactly when the element is eligible for two-way binding
  (\<open>TEXTAREA\<close>, \<open>SELECT\<close>; \<open>INPUT\<close> only with a type of the allow-list; any other
  element with \<open>contentEditable\<close> equal to \<open>true\<close> or with \<open>role="textbox"\<close>); otherwise
  \<open>modelDirective\<close> stays absent and the diagnostic naming the tag and the type is
  logged.  An \<open>INPUT\<close> of type \<open>button\<close> with \<open>data-m\<close> yields no model directive.
\<close>

theorem model_directive_eligibility:
  "((\<forall>a. arg = Some a \<longrightarrow> distinct (map fst a)) \<and>
    map_of (scanned_attributes e arg) ''data-m'' = Some value \<longrightarrow>
      modelDirective (fst (parseDirectives h e arg))
        = (if eligible_for_model e then Some (parseModelDirective value) else None) \<and>
      (\<not> eligible_for_model e \<longrightarrow>
         not_valid_message e \<in> set (snd (parseDirectives h e arg)))) \<and>
   modelDirective (fst (parseDirectives h button_input None)) = None \<and>
   snd (parseDirectives h button_input None)
     = [''data-m is not valid on INPUT[type='' @ dquote @ ''button'' @ dquote @ '']'']"
proof -
  have ex: "modelDirective (fst (parseDirectives h button_input None)) = None \<and>
    snd (parseDirectives h button_input None)
     = [''data-m is not valid on INPUT[type='' @ dquote @ ''button'' @ dquote @ '']'']"
    by code_simp
  have gen: "modelDirective (fst (parseDirectives h e arg))
        = (if eligible_for_model e then Some (parseModelDirective value) else None) \<and>
      (\<not> eligible_for_model e \<longrightarrow>
         not_valid_message e \<in> set (snd (parseDirectives h e arg)))"
    if d: "\<forall>a. arg = Some a \<longrightarrow> distinct (map fst a)"
      and m: "map_of (scanned_attributes e arg) ''data-m'' = Some value"
  proof -
    have dd: "distinct (map fst (scanned_attributes e arg))"
      using d by (cases arg) (simp_all add: scanned_attributes_def distinct_getElementAttrs)
    have mm: "map_of (scanned_attributes e arg) PREFIX_MODEL = Some value"
      using m by (simp add: PREFIX_MODEL_def)
    show ?thesis using parseDirectives_model[OF dd mm] by blast
  qed
  show ?thesis using ex gen by blast
qed

theorem model_directive_eligibility_witness:
  "(\<forall>a. (None :: (string \<times> string) list option) = Some a \<longrightarrow> distinct (map fst a)) \<and>
   map_of (scanned_attributes
       \<lparr>tagName = ''DIV'', element_type = None, contentEditable = Some ''false'',
        attributes = [(''role'', ''textbox''), (''data-m'', ''note:textContent@blur'')]\<rparr> None)
     ''data-m'' = Some ''note:textContent@blur'' \<and>
   eligible_for_model
       \<lparr>tagName = ''DIV'', element_type = None, contentEditable = Some ''false'',
        attributes = [(''role'', ''textbox''), (''data-m'', ''note:textContent@blur'')]\<rparr> \<and>
   modelDirective (fst (parseDirectives no_native_properties
       \<lparr>tagName = ''DIV'', element_type = None, contentEditable = Some ''false'',
        attributes = [(''role'', ''textbox''), (''data-m'', ''note:textContent@blur'')]\<rparr> None))
     = Some \<lparr>target = ''note'', domProperty = ''textContent'', event = ''blur'',
             eventModifiers = []\<rparr>"
proof -
  let ?e = "\<lparr>tagName = ''DIV'', element_type = None, contentEditable = Some ''false'',
        attributes = [(''role'', ''textbox''), (''data-m'', ''note:textContent@blur'')]\<rparr>"
  have a: "\<forall>a. (None :: (string \<times> string) list option) = Some a \<longrightarrow> distinct (map fst a)"
    by simp
  have m: "map_of (scanned_attributes ?e None) ''data-m'' = Some ''note:textContent@blur''"
    by code_simp
  have el: "eligible_for_model ?e" by code_simp
  have p: "parseModelDirective ''note:textContent@blur''
     = \<lparr>target = ''note'', domProperty = ''textContent'', event = ''blur'', eventModifiers = []\<rparr>"
    by code_simp
  have "modelDirective (fst (parseDirectives no_native_properties ?e None))
        = (if eligible_for_model ?e then Some (parseModelDirective ''note:textContent@blur'')
           else None)"
    using model_directive_eligibility[of None ?e "''note:textContent@blur''" no_native_properties] a m
    by blast
  then show ?thesis using a m el p by simp
qed

end
